theory Spec2Isabelle
  imports Complex_Main "HOL-Library.AList"
begin

section \<open>Wallet-activity analytics of \<^verbatim>\<open>streamlit_app.py\<close>\<close>

text \<open>
  A shallow embedding of the data pipeline of \<^verbatim>\<open>src/streamlit_app.py\<close>:
  \<^verbatim>\<open>fetch_transactions\<close> (the aggregation loop), \<^verbatim>\<open>calculate_streaks\<close>,
  \<^verbatim>\<open>calculate_chain_and_amount\<close>, \<^verbatim>\<open>generate_contribution_data\<close> and
  \<^verbatim>\<open>analyze_wallet_activity\<close>.

  Modelling decisions.
  \<^item> A \<^verbatim>\<open>datetime.date\<close> is its proleptic Gregorian ordinal (\<^verbatim>\<open>date.toordinal()\<close>,
    day 1 is 0001-01-01): subtracting two dates gives the difference of the ordinals,
    adding a \<^verbatim>\<open>timedelta(days=i)\<close> adds \<open>i\<close>.
  \<^item> A Python \<^verbatim>\<open>dict\<close> is an association list in insertion order with distinct keys;
    \<^verbatim>\<open>d.get(k, 0)\<close> is a lookup with default, \<^verbatim>\<open>d[k] = v\<close> is \<open>AList.update\<close>
    (it overwrites in place or appends, as a dict does).
  \<^item> \<^verbatim>\<open>datetime.date.today()\<close> is read from the wall clock; it is the parameter
    \<open>today\<close> of every function that reads it.
  \<^item> The network fetch is outside the model: the list of transfers the API returned
    is the input.
  \<^item> Every exception the library calls can raise on the modelled paths is a value of
    \<open>py_error\<close>, and a function that can raise returns \<open>py_error + _\<close>.
  \<^item> The cells of the numpy array are \<^verbatim>\<open>float64\<close> values that hold integer counts;
    they are modelled as integers (exact for counts below \<open>2^53\<close>).
  \<^item> Addition of two Python floats is the parameter \<open>fadd\<close> of
    \<open>calculate_chain_and_amount\<close>: IEEE rounding is not modelled.
\<close>

subsection \<open>Dates\<close>

type_synonym date = int

text \<open>\<^verbatim>\<open>date.weekday()\<close>: Monday is 0, Sunday is 6 (\<^verbatim>\<open>(toordinal() + 6) % 7\<close>).\<close>

definition weekday :: "date \<Rightarrow> int" where
  "weekday d = (d + 6) mod 7"

text \<open>
  The ordinal of a calendar date, as Python's \<^verbatim>\<open>datetime\<close> computes it
  (\<^verbatim>\<open>_ymd2ord\<close>); used to write the dates of the spec's scenarios.
\<close>

definition is_leap :: "int \<Rightarrow> bool" where
  "is_leap year = (if year mod 4 = 0 then (if year mod 100 = 0 then year mod 400 = 0 else True) else False)"

definition days_before_year :: "int \<Rightarrow> int" where
  "days_before_year year = (let y = year - 1 in y * 365 + y div 4 - y div 100 + y div 400)"

definition days_before_month :: "int \<Rightarrow> nat \<Rightarrow> int" where
  "days_before_month year month =
     [0, 0, 31, 59, 90, 120, 151, 181, 212, 243, 273, 304, 334] ! month
       + (if month > 2 \<and> is_leap year then 1 else 0)"

definition ymd2ord :: "int \<Rightarrow> nat \<Rightarrow> int \<Rightarrow> date" where
  "ymd2ord year month day = days_before_year year + days_before_month year month + day"

text \<open>
  \<^verbatim>\<open>datetime.datetime.utcfromtimestamp(timestamp).date()\<close>: the UTC day of a Unix
  timestamp in seconds. 1970-01-01 has ordinal 719163, a day has 86400 seconds, and the
  division rounds down (also for a negative timestamp). No time zone is applied.
\<close>

definition utc_date :: "int \<Rightarrow> date" where
  "utc_date ts = 719163 + ts div 86400"

subsection \<open>Errors\<close>

text \<open>
  The exceptions of the modelled paths, each a Python \<^verbatim>\<open>ValueError\<close>:
  \<^verbatim>\<open>np.zeros\<close> of a negative length, \<^verbatim>\<open>np.pad\<close> with a negative width,
  \<^verbatim>\<open>reshape\<close> to a shape of another size, and unpacking a sequence of the wrong
  length into three names. The source defines no exception of its own.
\<close>

datatype py_error =
    NegativeDimensions
  | NegativePadWidth
  | CannotReshape
  | NotEnoughValuesToUnpack

subsection \<open>Transfers and the activity map\<close>

text \<open>
  A transfer as the functions read it: \<^verbatim>\<open>tx["receiving"]["timestamp"]\<close>,
  \<^verbatim>\<open>tx["receiving"]["chainId"]\<close> and \<^verbatim>\<open>float(tx["receiving"]["amountUSD"])\<close>.
\<close>

record transfer =
  timestamp :: int
  chainId :: int
  amountUSD :: real

type_synonym activity_map = "(date \<times> int) list"

text \<open>\<^verbatim>\<open>activity_days.get(date, 0)\<close>\<close>

definition get0 :: "activity_map \<Rightarrow> date \<Rightarrow> int" where
  "get0 activity_days d = (case map_of activity_days d of None \<Rightarrow> 0 | Some v \<Rightarrow> v)"

text \<open>
  Lines 30-34: the loop of \<^verbatim>\<open>fetch_transactions\<close> over the transfers,
  \<^verbatim>\<open>activity_days[date] = activity_days.get(date, 0) + 1\<close>.
\<close>

fun activity_loop :: "activity_map \<Rightarrow> transfer list \<Rightarrow> activity_map" where
  "activity_loop activity_days [] = activity_days"
| "activity_loop activity_days (tx # txs) =
     (let d = utc_date (timestamp tx)
      in activity_loop (AList.update d (get0 activity_days d + 1) activity_days) txs)"

definition fetch_transactions :: "transfer list \<Rightarrow> transfer list \<times> activity_map" where
  "fetch_transactions transactions = (transactions, activity_loop [] transactions)"

subsection \<open>Streaks\<close>

text \<open>
  Lines 48-55: the loop of \<^verbatim>\<open>calculate_streaks\<close>. The state is
  \<open>(current_streak, max_streak)\<close> and \<open>previous_date\<close>, which is \<open>None\<close> before
  the first date (a date object is never falsy).
\<close>

fun streak_loop :: "date list \<Rightarrow> date option \<Rightarrow> int \<Rightarrow> int \<Rightarrow> int \<times> int" where
  "streak_loop [] previous_date current_streak max_streak = (current_streak, max_streak)"
| "streak_loop (d # ds) previous_date current_streak max_streak =
     (let current_streak' =
            (case previous_date of
               None \<Rightarrow> 1
             | Some p \<Rightarrow> if d - p = 1 then current_streak + 1 else 1)
      in streak_loop ds (Some d) current_streak' (max max_streak current_streak'))"

definition calculate_streaks :: "date \<Rightarrow> activity_map \<Rightarrow> int \<times> int" where
  "calculate_streaks today activity_days =
     (let dates = sort (map fst activity_days);
          (current_streak, max_streak) = streak_loop dates None 0 0;
          active_streak = (if dates \<noteq> [] \<and> today = last dates then current_streak else 0)
      in (active_streak, max_streak))"

subsection \<open>Chains and amount\<close>

text \<open>
  \<^verbatim>\<open>sum\<close> starts from 0 and adds the amounts from left to right with the float
  addition \<open>fadd\<close>.
\<close>

definition calculate_chain_and_amount ::
  "(real \<Rightarrow> real \<Rightarrow> real) \<Rightarrow> transfer list \<Rightarrow> nat \<times> real" where
  "calculate_chain_and_amount fadd transactions =
     (let receiving_chain_ids = set (map chainId transactions);
          num_distinct_chain_ids = card receiving_chain_ids;
          total_amount_usd = foldl fadd 0 (map amountUSD transactions)
      in (num_distinct_chain_ids, total_amount_usd))"

subsection \<open>The contribution grid\<close>

text \<open>
  What \<^verbatim>\<open>generate_contribution_data\<close> returns: the lone empty array of line 79, or
  the 3-tuple \<open>(heatmap_data, start_date, end_date)\<close> of line 100. A 2-D array is the
  list of its rows.
\<close>

datatype contribution =
    EmptyArray
  | Contribution "int list list" date date

text \<open>\<^verbatim>\<open>np.zeros(n)\<close> raises for a negative \<open>n\<close>.\<close>

definition np_zeros :: "int \<Rightarrow> py_error + int list" where
  "np_zeros n = (if n < 0 then Inl NegativeDimensions else Inr (replicate (nat n) 0))"

text \<open>Lines 89-91: \<^verbatim>\<open>heatmap_data[i] = activity_days.get(start_date + i days, 0)\<close>.\<close>

fun fill_loop :: "activity_map \<Rightarrow> date \<Rightarrow> nat list \<Rightarrow> int list \<Rightarrow> int list" where
  "fill_loop activity_days start_date [] heatmap_data = heatmap_data"
| "fill_loop activity_days start_date (i # is) heatmap_data =
     fill_loop activity_days start_date is
       (heatmap_data[i := get0 activity_days (start_date + int i)])"

text \<open>\<^verbatim>\<open>np.pad(a, (pad_before, pad_after), 'constant')\<close> on a 1-D array.\<close>

definition np_pad :: "int list \<Rightarrow> int \<Rightarrow> int \<Rightarrow> py_error + int list" where
  "np_pad a pad_before pad_after =
     (if pad_before < 0 \<or> pad_after < 0 then Inl NegativePadWidth
      else Inr (replicate (nat pad_before) 0 @ a @ replicate (nat pad_after) 0))"

text \<open>\<^verbatim>\<open>a.reshape((rows, cols))\<close> on a 1-D array, in row-major (C) order.\<close>

definition reshape :: "int list \<Rightarrow> nat \<Rightarrow> nat \<Rightarrow> py_error + int list list" where
  "reshape a rows cols =
     (if length a = rows * cols
      then Inr (map (\<lambda>i. take cols (drop (i * cols) a)) [0..<rows])
      else Inl CannotReshape)"

text \<open>\<^verbatim>\<open>.T\<close> of a 2-D array with \<open>cols\<close> columns: the array of its columns.\<close>

definition transpose_T :: "nat \<Rightarrow> int list list \<Rightarrow> int list list" where
  "transpose_T cols a = map (\<lambda>j. map (\<lambda>row. row ! j) a) [0..<cols]"

text \<open>
  Lines 81-96 of \<^verbatim>\<open>generate_contribution_data\<close>: the daily array, its padding, and
  the local variables \<open>(padded_data, num_weeks, start_date)\<close> the rest of the function
  reads. It runs after the guard of line 78, on a dict that is not empty.
\<close>

definition padded_data :: "date \<Rightarrow> activity_map \<Rightarrow> py_error + (int list \<times> int \<times> date)" where
  "padded_data today activity_days =
     (let dates = sort (map fst activity_days);
          start_date = min_list dates;
          end_date = today;
          num_days = (end_date - start_date) + 1
      in (case np_zeros num_days of
            Inl e \<Rightarrow> Inl e
          | Inr zeros \<Rightarrow>
              (let heatmap_data = fill_loop activity_days start_date [0..<nat num_days] zeros;
                   start_weekday = weekday start_date;
                   num_weeks = (num_days + start_weekday) div 7 + 1
               in (case np_pad heatmap_data start_weekday
                          (num_weeks * 7 - (num_days + start_weekday)) of
                     Inl e \<Rightarrow> Inl e
                   | Inr padded \<Rightarrow> Inr (padded, num_weeks, start_date)))))"

text \<open>
  \<^verbatim>\<open>generate_contribution_data\<close>: the guard of lines 78-79, the stage above, and
  lines 98-100 (\<^verbatim>\<open>padded_data.reshape((num_weeks, 7)).T\<close>, with \<open>end_date\<close> being
  \<open>today\<close>).
\<close>

definition generate_contribution_data :: "date \<Rightarrow> activity_map \<Rightarrow> py_error + contribution" where
  "generate_contribution_data today activity_days =
     (if activity_days = [] then Inr EmptyArray
      else
        (case padded_data today activity_days of
           Inl e \<Rightarrow> Inl e
         | Inr (padded, num_weeks, start_date) \<Rightarrow>
             (case reshape padded (nat num_weeks) 7 of
                Inl e \<Rightarrow> Inl e
              | Inr weeks \<Rightarrow> Inr (Contribution (transpose_T 7 weeks) start_date today))))"

text \<open>The shape of a 2-D array given as the list of its rows, and the sum of its cells.\<close>

definition num_columns :: "int list list \<Rightarrow> nat" where
  "num_columns grid = (case grid of [] \<Rightarrow> 0 | row # _ \<Rightarrow> length row)"


subsection \<open>The orchestrator\<close>

record analysis =
  num_distinct_chain_ids :: nat
  total_amount_usd :: real
  active_streak :: int
  longest_streak :: int
  heatmap_data :: "int list list"
  start_date :: date
  end_date :: date

text \<open>
  Line 106 unpacks the result of \<^verbatim>\<open>generate_contribution_data\<close> into three names:
  the empty array has no element to unpack, which raises \<^verbatim>\<open>ValueError\<close>.
\<close>

definition analyze_wallet_activity ::
  "(real \<Rightarrow> real \<Rightarrow> real) \<Rightarrow> date \<Rightarrow> transfer list \<Rightarrow> py_error + analysis" where
  "analyze_wallet_activity fadd today transfers =
     (let (transactions, activity_days) = fetch_transactions transfers;
          (active, longest) = calculate_streaks today activity_days;
          (chains, total) = calculate_chain_and_amount fadd transactions
      in (case generate_contribution_data today activity_days of
            Inl e \<Rightarrow> Inl e
          | Inr EmptyArray \<Rightarrow> Inl NotEnoughValuesToUnpack
          | Inr (Contribution grid sd ed) \<Rightarrow>
              Inr \<lparr> num_distinct_chain_ids = chains, total_amount_usd = total,
                    active_streak = active, longest_streak = longest,
                    heatmap_data = grid, start_date = sd, end_date = ed \<rparr>))"

section \<open>Runs of consecutive dates (the statement of the streak claims)\<close>

text \<open>
  A run of a set of dates is a non-empty interval of consecutive days that all belong to
  the set; it is maximal when the day before it and the day after it do not.
\<close>

definition is_run :: "date set \<Rightarrow> date \<Rightarrow> date \<Rightarrow> bool" where
  "is_run S a b = (a \<le> b \<and> {a..b} \<subseteq> S)"

definition maximal_run :: "date set \<Rightarrow> date \<Rightarrow> date \<Rightarrow> bool" where
  "maximal_run S a b = (is_run S a b \<and> a - 1 \<notin> S \<and> b + 1 \<notin> S)"

definition run_lengths :: "date set \<Rightarrow> int set" where
  "run_lengths S = {b - a + 1 | a b. maximal_run S a b}"

text \<open>
  The invariant of the loop of \<^verbatim>\<open>calculate_streaks\<close> after the dates of \<open>S\<close>, the
  latest being \<open>p\<close>: the run that ends at \<open>p\<close> has length \<open>cur\<close>, and \<open>mx\<close> is the
  greatest length of a run of \<open>S\<close>.
\<close>

definition streak_inv :: "date set \<Rightarrow> date \<Rightarrow> int \<Rightarrow> int \<Rightarrow> bool" where
  "streak_inv S p cur mx =
     (p \<in> S \<and> (\<forall>x \<in> S. x \<le> p) \<and> 1 \<le> cur \<and> {p - cur + 1..p} \<subseteq> S \<and> p - cur \<notin> S \<and>
      (\<forall>a b. is_run S a b \<longrightarrow> b - a + 1 \<le> mx) \<and> (\<exists>a b. is_run S a b \<and> b - a + 1 = mx))"

section \<open>Quantities of the grid claims\<close>

text \<open>
  The spec's names for the grid: \<open>startDate\<close> is the earliest key, \<open>totalDays\<close> the
  inclusive day count from it to \<open>today\<close>, \<open>leadingPad\<close> its weekday index (Monday 0),
  and the daily sequence holds \<^verbatim>\<open>map.get(date, 0)\<close> for each date of the range in
  chronological order.
\<close>

definition startDate :: "activity_map \<Rightarrow> date" where
  "startDate m = Min (set (map fst m))"

definition totalDays :: "date \<Rightarrow> activity_map \<Rightarrow> int" where
  "totalDays today m = today - startDate m + 1"

definition leadingPad :: "activity_map \<Rightarrow> int" where
  "leadingPad m = weekday (startDate m)"

definition daily_sequence :: "date \<Rightarrow> activity_map \<Rightarrow> int list" where
  "daily_sequence today m = map (\<lambda>i. get0 m (startDate m + int i)) [0..<nat (totalDays today m)]"

text \<open>The number of transfers whose UTC date is \<open>d\<close>.\<close>

definition records_on :: "date \<Rightarrow> transfer list \<Rightarrow> nat" where
  "records_on d txs = length (filter (\<lambda>tx. utc_date (timestamp tx) = d) txs)"

section \<open>Empty input\<close>

lemma calculate_streaks_Nil: "calculate_streaks today [] = (0, 0)"
  by (simp add: calculate_streaks_def)

lemma calculate_chain_and_amount_Nil: "calculate_chain_and_amount fadd [] = (0, 0)"
  by (simp add: calculate_chain_and_amount_def)

lemma generate_contribution_data_Nil: "generate_contribution_data today [] = Inr EmptyArray"
  by (simp add: generate_contribution_data_def)

text \<open>
  C9. On empty input the streak computation returns \<open>(0, 0)\<close> and the metrics
  computation returns \<open>(0, 0)\<close> (no chain, the start value of the sum), whatever
  \<open>today\<close> is; neither raises.
\<close>

theorem empty_input_zero_results:
  "calculate_streaks today [] = (0, 0) \<and> calculate_chain_and_amount fadd [] = (0, 0)"
  by (simp add: calculate_streaks_Nil calculate_chain_and_amount_Nil)

text \<open>
  C2, as the claim states it, fails: on the empty dict \<^verbatim>\<open>generate_contribution_data\<close>
  raises nothing; the guard of line 78 returns a value.
\<close>

theorem empty_grid_does_not_fail:
  "\<not> isl (generate_contribution_data (ymd2ord 2024 1 10) [])"
  by (simp add: generate_contribution_data_Nil)

text \<open>
  C2, amended. For every \<open>today\<close>, \<^verbatim>\<open>generate_contribution_data\<close> applied to the empty
  dict returns the empty array as an ordinary result and raises no error.
\<close>

theorem empty_grid_returns_empty_array:
  "generate_contribution_data today [] = Inr EmptyArray"
  by (simp add: generate_contribution_data_def)

section \<open>Streak invariants\<close>

lemma streak_loop_le:
  "cur \<le> mx \<Longrightarrow> fst (streak_loop ds prev cur mx) \<le> snd (streak_loop ds prev cur mx)"
  by (induction ds arbitrary: prev cur mx) (simp_all add: Let_def)

lemma streak_loop_mono: "mx \<le> snd (streak_loop ds prev cur mx)"
proof (induction ds arbitrary: prev cur mx)
  case Nil
  show ?case by simp
next
  case (Cons d ds)
  let ?c = "case prev of None \<Rightarrow> 1 | Some p \<Rightarrow> if d - p = 1 then cur + 1 else 1"
  have "max mx ?c \<le> snd (streak_loop ds (Some d) ?c (max mx ?c))"
    by (rule Cons.IH)
  then show ?case by (simp add: Let_def)
qed

lemma streak_loop_first:
  "1 \<le> snd (streak_loop (d # ds) None cur mx)"
proof -
  have "max mx 1 \<le> snd (streak_loop ds (Some d) 1 (max mx 1))"
    by (rule streak_loop_mono)
  then show ?thesis by simp
qed

text \<open>
  C8. For every activity map and \<open>today\<close>: a positive current streak is at most the
  longest streak, and a non-empty map has a longest streak of at least 1.
\<close>

theorem streak_result_invariant:
  "(0 < fst (calculate_streaks today m) \<longrightarrow>
      fst (calculate_streaks today m) \<le> snd (calculate_streaks today m)) \<and>
   (m \<noteq> [] \<longrightarrow> 1 \<le> snd (calculate_streaks today m))"
proof -
  let ?dates = "sort (map fst m)"
  let ?r = "streak_loop ?dates None 0 0"
  have le: "fst ?r \<le> snd ?r"
    by (rule streak_loop_le) simp
  have res: "calculate_streaks today m =
      ((if ?dates \<noteq> [] \<and> today = last ?dates then fst ?r else 0), snd ?r)"
    by (simp add: calculate_streaks_def Let_def split_beta)
  have one: "1 \<le> snd ?r" if "m \<noteq> []"
  proof -
    from that have "?dates \<noteq> []"
      by (metis length_0_conv length_map length_sort)
    then obtain d ds where "?dates = d # ds" by (cases ?dates) auto
    then show ?thesis using streak_loop_first [of d ds 0 0] by simp
  qed
  show ?thesis using le one by (auto simp: res)
qed

theorem streak_result_invariant_witness:
  "0 < fst (calculate_streaks (ymd2ord 2024 1 5) [(ymd2ord 2024 1 4, 2), (ymd2ord 2024 1 5, 1)]) \<and>
   fst (calculate_streaks (ymd2ord 2024 1 5) [(ymd2ord 2024 1 4, 2), (ymd2ord 2024 1 5, 1)])
     \<le> snd (calculate_streaks (ymd2ord 2024 1 5) [(ymd2ord 2024 1 4, 2), (ymd2ord 2024 1 5, 1)]) \<and>
   [(ymd2ord 2024 1 4, 2), (ymd2ord 2024 1 5, 1 :: int)] \<noteq> [] \<and>
   1 \<le> snd (calculate_streaks (ymd2ord 2024 1 5) [(ymd2ord 2024 1 4, 2), (ymd2ord 2024 1 5, 1)])"
proof -
  have pos: "0 < fst (calculate_streaks (ymd2ord 2024 1 5) [(ymd2ord 2024 1 4, 2), (ymd2ord 2024 1 5, 1)])"
    by code_simp
  show ?thesis
    using pos streak_result_invariant [of "ymd2ord 2024 1 5" "[(ymd2ord 2024 1 4, 2), (ymd2ord 2024 1 5, 1)]"]
    by simp
qed

section \<open>Streaks are runs of consecutive dates\<close>

lemma streak_inv_single: "streak_inv {d} d 1 1"
proof -
  have "b - a + 1 \<le> 1" if "is_run {d} a b" for a b
  proof -
    from that have "a \<le> b" and sub: "{a..b} \<subseteq> {d}" by (simp_all add: is_run_def)
    then have "a \<in> {a..b}" "b \<in> {a..b}" by simp_all
    with sub have "a = d" "b = d" by blast+
    then show ?thesis by simp
  qed
  moreover have "is_run {d} d d \<and> d - d + 1 = 1" by (simp add: is_run_def)
  ultimately show ?thesis unfolding streak_inv_def by fastforce
qed

lemma streak_inv_step:
  assumes inv: "streak_inv S p cur mx" and lt: "p < d"
  defines "cur' \<equiv> (if d - p = 1 then cur + 1 else 1)"
  shows "streak_inv (insert d S) d cur' (max mx cur')"
proof -
  from inv have pS: "p \<in> S" and top: "\<And>x. x \<in> S \<Longrightarrow> x \<le> p" and cur: "1 \<le> cur"
    and run: "{p - cur + 1..p} \<subseteq> S" and start: "p - cur \<notin> S"
    and ub: "\<And>a b. is_run S a b \<Longrightarrow> b - a + 1 \<le> mx"
    and ex: "\<exists>a b. is_run S a b \<and> b - a + 1 = mx"
    unfolding streak_inv_def by blast+
  have dS: "d \<notin> S" using top lt by fastforce
  have cur': "1 \<le> cur'" using cur by (simp add: cur'_def)
  have top': "\<forall>x \<in> insert d S. x \<le> d" using top lt by fastforce
  have prev: "d - 1 \<in> S \<Longrightarrow> d - p = 1"
  proof -
    assume "d - 1 \<in> S"
    then have "d - 1 \<le> p" by (rule top)
    with lt show ?thesis by simp
  qed
  have run': "{d - cur' + 1..d} \<subseteq> insert d S"
  proof (cases "d - p = 1")
    case True
    then have "{d - cur' + 1..d} = insert d {p - cur + 1..p}"
      using cur by (auto simp: cur'_def)
    with run show ?thesis by auto
  next
    case False
    then show ?thesis by (auto simp: cur'_def)
  qed
  have start': "d - cur' \<notin> insert d S"
  proof (cases "d - p = 1")
    case True
    then have "d - cur' = p - cur" by (simp add: cur'_def)
    with start cur lt show ?thesis by auto
  next
    case False
    then have "d - cur' = d - 1" by (simp add: cur'_def)
    with prev False show ?thesis by auto
  qed
  have ub': "b - a + 1 \<le> max mx cur'" if r: "is_run (insert d S) a b" for a b
  proof -
    from r have ab: "a \<le> b" and sub: "{a..b} \<subseteq> insert d S" by (simp_all add: is_run_def)
    show ?thesis
    proof (cases "b < d")
      case True
      then have "{a..b} \<subseteq> S" using sub by auto
      then have "is_run S a b" using ab by (simp add: is_run_def)
      then have "b - a + 1 \<le> mx" by (rule ub)
      then show ?thesis by simp
    next
      case False
      have "b \<in> insert d S" using sub ab by auto
      then have "b \<le> d" using top' by blast
      with False have b: "b = d" by simp
      show ?thesis
      proof (cases "a = d")
        case True
        then show ?thesis using b cur' by simp
      next
        case False
        then have ad: "a < d" using ab b by simp
        then have "d - 1 \<in> {a..b}" using b by simp
        then have "d - 1 \<in> insert d S" using sub by blast
        then have "d - 1 \<in> S" by simp
        then have dp: "d - p = 1" by (rule prev)
        have "p - cur < a"
        proof (rule ccontr)
          assume "\<not> p - cur < a"
          then have "p - cur \<in> {a..b}" using b cur dp by simp
          then have "p - cur \<in> insert d S" using sub by blast
          moreover have "p - cur \<noteq> d" using cur lt by simp
          ultimately show False using start by simp
        qed
        then have "b - a + 1 \<le> cur'" using b dp by (simp add: cur'_def)
        then show ?thesis by simp
      qed
    qed
  qed
  have ex': "\<exists>a b. is_run (insert d S) a b \<and> b - a + 1 = max mx cur'"
  proof (cases "cur' \<le> mx")
    case True
    from ex obtain a b where "is_run S a b" and "b - a + 1 = mx" by blast
    then have "is_run (insert d S) a b \<and> b - a + 1 = max mx cur'"
      using True by (auto simp: is_run_def)
    then show ?thesis by blast
  next
    case False
    have "is_run (insert d S) (d - cur' + 1) d" using run' cur' by (simp add: is_run_def)
    moreover have "d - (d - cur' + 1) + 1 = max mx cur'" using False by simp
    ultimately show ?thesis by blast
  qed
  show ?thesis
    unfolding streak_inv_def using top' cur' run' start' ub' ex' by blast
qed

lemma streak_loop_inv:
  "streak_inv S p cur mx \<Longrightarrow> sorted_wrt (<) (p # ds) \<Longrightarrow>
     streak_inv (S \<union> set ds) (last (p # ds))
       (fst (streak_loop ds (Some p) cur mx)) (snd (streak_loop ds (Some p) cur mx))"
proof (induction ds arbitrary: S p cur mx)
  case Nil
  then show ?case by simp
next
  case (Cons d ds)
  let ?cur = "if d - p = 1 then cur + 1 else 1"
  from Cons.prems(2) have lt: "p < d" and srt: "sorted_wrt (<) (d # ds)" by simp_all
  have "streak_inv (insert d S) d ?cur (max mx ?cur)"
    by (rule streak_inv_step [OF Cons.prems(1) lt])
  from Cons.IH [OF this srt]
  have "streak_inv (insert d S \<union> set ds) (last (d # ds))
       (fst (streak_loop ds (Some d) ?cur (max mx ?cur)))
       (snd (streak_loop ds (Some d) ?cur (max mx ?cur)))" .
  moreover have "insert d S \<union> set ds = S \<union> set (d # ds)" by simp
  moreover have "streak_loop (d # ds) (Some p) cur mx = streak_loop ds (Some d) ?cur (max mx ?cur)"
    by (simp add: Let_def)
  ultimately show ?case by simp
qed

lemma streak_loop_dates:
  assumes "dates \<noteq> []" and "sorted_wrt (<) dates"
  shows "streak_inv (set dates) (last dates)
           (fst (streak_loop dates None 0 0)) (snd (streak_loop dates None 0 0))"
proof -
  from assms(1) obtain d ds where dates: "dates = d # ds" by (cases dates) auto
  have "streak_inv ({d} \<union> set ds) (last (d # ds))
       (fst (streak_loop ds (Some d) 1 1)) (snd (streak_loop ds (Some d) 1 1))"
    by (rule streak_loop_inv [OF streak_inv_single]) (use assms(2) dates in simp)
  moreover have "streak_loop dates None 0 0 = streak_loop ds (Some d) 1 1"
    by (simp add: dates)
  moreover have "{d} \<union> set ds = set dates" by (simp add: dates)
  ultimately show ?thesis by (simp add: dates)
qed


lemma is_run_ends: "is_run S a b \<Longrightarrow> a \<in> S \<and> b \<in> S"
  by (auto simp: is_run_def)

lemma finite_run_lengths: "finite S \<Longrightarrow> finite (run_lengths S)"
proof -
  assume fin: "finite S"
  have "run_lengths S \<subseteq> (\<lambda>(a, b). b - a + 1) ` (S \<times> S)"
    unfolding run_lengths_def maximal_run_def using is_run_ends by fastforce
  moreover have "finite ((\<lambda>(a, b). b - a + 1) ` (S \<times> S))" using fin by simp
  ultimately show ?thesis by (rule finite_subset)
qed

lemma longest_run_is_maximal:
  assumes r: "is_run S a b" and ub: "\<And>a' b'. is_run S a' b' \<Longrightarrow> b' - a' + 1 \<le> b - a + 1"
  shows "maximal_run S a b"
proof -
  from r have ab: "a \<le> b" and sub: "{a..b} \<subseteq> S" by (simp_all add: is_run_def)
  have "a - 1 \<notin> S"
  proof
    assume "a - 1 \<in> S"
    moreover have "{a - 1..b} = insert (a - 1) {a..b}" using ab by auto
    ultimately have "is_run S (a - 1) b" using ab sub by (simp add: is_run_def)
    from ub [OF this] show False by simp
  qed
  moreover have "b + 1 \<notin> S"
  proof
    assume "b + 1 \<in> S"
    moreover have "{a..b + 1} = insert (b + 1) {a..b}" using ab by auto
    ultimately have "is_run S a (b + 1)" using ab sub by (simp add: is_run_def)
    from ub [OF this] show False by simp
  qed
  ultimately show ?thesis using r by (simp add: maximal_run_def)
qed

lemma streak_inv_longest:
  assumes inv: "streak_inv S p cur mx" and fin: "finite S"
  shows "mx = Max (run_lengths S)"
proof -
  from inv have ub: "\<And>a b. is_run S a b \<Longrightarrow> b - a + 1 \<le> mx"
    and ex: "\<exists>a b. is_run S a b \<and> b - a + 1 = mx"
    unfolding streak_inv_def by blast+
  from ex obtain a b where r: "is_run S a b" and len: "b - a + 1 = mx" by blast
  have "maximal_run S a b"
    by (rule longest_run_is_maximal [OF r]) (use ub len in simp)
  then have mem: "mx \<in> run_lengths S" unfolding run_lengths_def using len by blast
  have "y \<le> mx" if "y \<in> run_lengths S" for y
  proof -
    from that obtain a' b' where "maximal_run S a' b'" and "y = b' - a' + 1"
      unfolding run_lengths_def by blast
    then show ?thesis using ub by (simp add: maximal_run_def)
  qed
  then have "Max (run_lengths S) = mx"
    by (intro Max_eqI finite_run_lengths fin mem)
  then show ?thesis by simp
qed

lemma streak_inv_current:
  assumes inv: "streak_inv S p cur mx"
  shows "maximal_run S (p - cur + 1) p"
proof -
  from inv have top: "\<And>x. x \<in> S \<Longrightarrow> x \<le> p" and cur: "1 \<le> cur"
    and run: "{p - cur + 1..p} \<subseteq> S" and start: "p - cur \<notin> S"
    unfolding streak_inv_def by blast+
  have "p + 1 \<notin> S" using top by fastforce
  then show ?thesis using cur run start by (simp add: maximal_run_def is_run_def)
qed

lemma streak_inv_Max:
  assumes inv: "streak_inv S p cur mx" and fin: "finite S"
  shows "Max S = p"
proof (rule Max_eqI [OF fin])
  show "p \<in> S" using inv by (simp add: streak_inv_def)
  show "y \<le> p" if "y \<in> S" for y using inv that by (simp add: streak_inv_def)
qed

text \<open>
  C3. For every non-empty activity map (a dict: its keys are distinct) and every
  \<open>today\<close>, \<^verbatim>\<open>calculate_streaks\<close> returns as longest streak the greatest length of a
  maximal run of consecutive dates among the keys; as current streak the length of the
  maximal run that ends at the latest key when that key is \<open>today\<close>, and 0 otherwise.
  A date whose predecessor is not a key starts a run of its own, of length 1. With keys
  2024-01-01, 2024-01-02 and 2024-01-10 and \<open>today\<close> 2024-01-10 the result is \<open>(1, 2)\<close>.
\<close>

theorem streaks_are_runs:
  assumes "m \<noteq> []" and "distinct (map fst m)"
  shows "snd (calculate_streaks today m) = Max (run_lengths (set (map fst m))) \<and>
         (today = Max (set (map fst m)) \<longrightarrow>
            (\<exists>a. maximal_run (set (map fst m)) a today \<and>
                 fst (calculate_streaks today m) = today - a + 1)) \<and>
         (today \<noteq> Max (set (map fst m)) \<longrightarrow> fst (calculate_streaks today m) = 0) \<and>
         calculate_streaks (ymd2ord 2024 1 10)
           [(ymd2ord 2024 1 1, 1), (ymd2ord 2024 1 2, 1), (ymd2ord 2024 1 10, 1)] = (1, 2)"
proof -
  define dates where "dates = sort (map fst m)"
  define S where "S = set (map fst m)"
  define cur where "cur = fst (streak_loop dates None 0 0)"
  define mx where "mx = snd (streak_loop dates None 0 0)"
  have ne: "dates \<noteq> []"
    unfolding dates_def using assms(1) by (metis length_0_conv length_map length_sort)
  have srt: "sorted_wrt (<) dates"
    unfolding dates_def using assms(2) by (simp add: strict_sorted_iff)
  have set: "set dates = S" by (simp add: dates_def S_def)
  have fin: "finite S" by (simp add: S_def)
  have inv: "streak_inv S (last dates) cur mx"
    using streak_loop_dates [OF ne srt] by (simp add: set cur_def mx_def)
  have last: "last dates = Max S" using streak_inv_Max [OF inv fin] by simp
  have res: "calculate_streaks today m = ((if today = Max S then cur else 0), mx)"
    using ne by (simp add: calculate_streaks_def Let_def split_beta dates_def [symmetric]
        cur_def mx_def last)
  have longest: "mx = Max (run_lengths S)" by (rule streak_inv_longest [OF inv fin])
  have "maximal_run S (Max S - cur + 1) (Max S)"
    using streak_inv_current [OF inv] by (simp add: last)
  then have current: "today = Max S \<Longrightarrow> \<exists>a. maximal_run S a today \<and> cur = today - a + 1"
    by (intro exI [of _ "Max S - cur + 1"]) simp
  have scenario: "calculate_streaks (ymd2ord 2024 1 10)
           [(ymd2ord 2024 1 1, 1), (ymd2ord 2024 1 2, 1), (ymd2ord 2024 1 10, 1)] = (1, 2)"
    by code_simp
  have c1: "snd (calculate_streaks today m) = Max (run_lengths S)"
    using longest by (simp add: res)
  have c2: "today = Max S \<longrightarrow>
      (\<exists>a. maximal_run S a today \<and> fst (calculate_streaks today m) = today - a + 1)"
  proof
    assume t: "today = Max S"
    from current [OF t] obtain a where "maximal_run S a today" and "cur = today - a + 1"
      by blast
    moreover have "fst (calculate_streaks today m) = cur" unfolding res using t by simp
    ultimately show "\<exists>a. maximal_run S a today \<and> fst (calculate_streaks today m) = today - a + 1"
      by auto
  qed
  have c3: "today \<noteq> Max S \<longrightarrow> fst (calculate_streaks today m) = 0"
    by (simp add: res)
  show ?thesis
    unfolding S_def [symmetric] using c1 c2 c3 scenario by blast
qed

theorem streaks_are_runs_witness:
  "[(ymd2ord 2024 1 1, 1), (ymd2ord 2024 1 2, 1), (ymd2ord 2024 1 10, 1 :: int)] \<noteq> [] \<and>
   distinct (map fst [(ymd2ord 2024 1 1, 1), (ymd2ord 2024 1 2, 1), (ymd2ord 2024 1 10, 1 :: int)]) \<and>
   snd (calculate_streaks (ymd2ord 2024 1 10)
          [(ymd2ord 2024 1 1, 1), (ymd2ord 2024 1 2, 1), (ymd2ord 2024 1 10, 1)])
     = Max (run_lengths (set (map fst [(ymd2ord 2024 1 1, 1), (ymd2ord 2024 1 2, 1), (ymd2ord 2024 1 10, 1 :: int)]))) \<and>
   (\<exists>a. maximal_run (set (map fst [(ymd2ord 2024 1 1, 1), (ymd2ord 2024 1 2, 1), (ymd2ord 2024 1 10, 1 :: int)]))
          a (ymd2ord 2024 1 10) \<and>
        fst (calculate_streaks (ymd2ord 2024 1 10)
               [(ymd2ord 2024 1 1, 1), (ymd2ord 2024 1 2, 1), (ymd2ord 2024 1 10, 1)])
          = ymd2ord 2024 1 10 - a + 1)"
proof -
  let ?m = "[(ymd2ord 2024 1 1, 1), (ymd2ord 2024 1 2, 1), (ymd2ord 2024 1 10, 1 :: int)]"
  have ne: "?m \<noteq> []" by simp
  have d: "distinct (map fst ?m)" by code_simp
  have t: "ymd2ord 2024 1 10 = Max (set (map fst ?m))" by code_simp
  from streaks_are_runs [OF ne d, of "ymd2ord 2024 1 10"] t d show ?thesis
    by blast
qed

section \<open>The contribution grid\<close>

subsection \<open>The daily array and its padding\<close>

lemma length_fill_loop: "length (fill_loop m s js xs) = length xs"
  by (induction js arbitrary: xs) simp_all

lemma nth_fill_loop:
  "j < length xs \<Longrightarrow>
     fill_loop m s js xs ! j = (if j \<in> set js then get0 m (s + int j) else xs ! j)"
proof (induction js arbitrary: xs)
  case Nil
  show ?case by simp
next
  case (Cons i js)
  have "j < length (xs[i := get0 m (s + int i)])" using Cons.prems by simp
  from Cons.IH [OF this] show ?case
    using Cons.prems by (auto simp: nth_list_update)
qed

lemma fill_loop_upt:
  "fill_loop m s [0..<n] (replicate n 0) = map (\<lambda>i. get0 m (s + int i)) [0..<n]"
  by (rule nth_equalityI) (simp_all add: length_fill_loop nth_fill_loop)

lemma weekday_range: "0 \<le> weekday d \<and> weekday d < 7"
  by (simp add: weekday_def)

lemma start_date_Min: "m \<noteq> [] \<Longrightarrow> min_list (sort (map fst m)) = Min (set (map fst m))"
proof -
  assume "m \<noteq> []"
  then have "sort (map fst m) \<noteq> []"
    by (metis length_0_conv length_map length_sort)
  then have "min_list (sort (map fst m)) = Min (set (sort (map fst m)))"
    by (rule min_list_Min)
  then show ?thesis by simp
qed

lemma trailing_pad: "((k::int) div 7 + 1) * 7 - k = 7 - k mod 7"
  by presburger

lemma np_pad_ok:
  "0 \<le> w \<Longrightarrow> 0 \<le> t \<Longrightarrow> np_pad a w t = Inr (replicate (nat w) 0 @ a @ replicate (nat t) 0)"
  by (simp add: np_pad_def)

lemma np_zeros_ok: "0 \<le> n \<Longrightarrow> np_zeros n = Inr (replicate (nat n) 0)"
  by (simp add: np_zeros_def)

lemma padded_data_eq:
  assumes "m \<noteq> []" and "startDate m \<le> today + 1"
  shows "padded_data today m =
     Inr (replicate (nat (leadingPad m)) 0 @ daily_sequence today m
            @ replicate (nat (7 - (totalDays today m + leadingPad m) mod 7)) 0,
          (totalDays today m + leadingPad m) div 7 + 1,
          startDate m)"
proof -
  define s where "s = startDate m"
  define n where "n = today - s + 1"
  define w where "w = weekday s"
  define t where "t = 7 - (n + w) mod 7"
  have s: "min_list (sort (map fst m)) = s"
    unfolding s_def startDate_def by (rule start_date_Min [OF assms(1)])
  have n: "0 \<le> n" using assms(2) by (simp add: n_def s_def)
  have w: "0 \<le> w" by (simp add: w_def weekday_range)
  have t: "((n + w) div 7 + 1) * 7 - (n + w) = t"
    unfolding t_def by (rule trailing_pad)
  have t0: "0 \<le> t"
    using pos_mod_bound [of 7 "n + w"] by (simp add: t_def)
  have "padded_data today m =
      (case np_zeros n of
         Inl e \<Rightarrow> Inl e
       | Inr zeros \<Rightarrow>
           (case np_pad (fill_loop m s [0..<nat n] zeros) w (((n + w) div 7 + 1) * 7 - (n + w)) of
              Inl e \<Rightarrow> Inl e
            | Inr padded \<Rightarrow> Inr (padded, (n + w) div 7 + 1, s)))"
    unfolding padded_data_def Let_def s n_def [symmetric] w_def [symmetric] ..
  also have "\<dots> = Inr (replicate (nat w) 0 @ map (\<lambda>i. get0 m (s + int i)) [0..<nat n]
      @ replicate (nat t) 0, (n + w) div 7 + 1, s)"
    by (simp only: t np_zeros_ok [OF n] sum.case fill_loop_upt np_pad_ok [OF w t0])
  finally show ?thesis
    unfolding t_def w_def n_def s_def leadingPad_def daily_sequence_def totalDays_def .
qed

lemma length_padded:
  fixes n w :: int
  assumes "0 \<le> n" "0 \<le> w"
  shows "nat w + (nat n + nat (7 - (n + w) mod 7)) = nat ((n + w) div 7 + 1) * 7"
proof -
  have "0 \<le> 7 - (n + w) mod 7" using pos_mod_bound [of 7 "n + w"] by simp
  moreover have "0 \<le> (n + w) div 7 + 1" using assms by (simp add: pos_imp_zdiv_nonneg_iff)
  moreover have "w + (n + (7 - (n + w) mod 7)) = ((n + w) div 7 + 1) * 7"
    by presburger
  ultimately show ?thesis using assms
    by (metis nat_add_distrib nat_mult_distrib nat_numeral add_nonneg_nonneg)
qed

subsection \<open>Reshaping and transposing\<close>

lemma reshape_ok:
  "length a = rows * cols \<Longrightarrow>
     reshape a rows cols = Inr (map (\<lambda>i. take cols (drop (i * cols) a)) [0..<rows])"
  by (simp add: reshape_def)

lemma nth_transpose_reshape:
  assumes "length a = rows * cols" "r < cols" "c < rows"
  shows "transpose_T cols (map (\<lambda>i. take cols (drop (i * cols) a)) [0..<rows]) ! r ! c
           = a ! (cols * c + r)"
proof -
  have "c * cols + r < rows * cols"
  proof -
    have "c * cols + r < c * cols + cols" using assms(2) by simp
    also have "\<dots> = (c + 1) * cols" by simp
    also have "\<dots> \<le> rows * cols" using assms(3) by (intro mult_le_mono1) simp
    finally show ?thesis .
  qed
  then show ?thesis using assms
    by (simp add: transpose_T_def mult.commute)
qed

lemma length_transpose_T: "length (transpose_T cols a) = cols"
  by (simp add: transpose_T_def)

lemma length_row_transpose_T: "r < cols \<Longrightarrow> length (transpose_T cols a ! r) = length a"
  by (simp add: transpose_T_def)

lemma generate_contribution_data_eq:
  assumes "m \<noteq> []" and "startDate m \<le> today + 1"
  shows "\<exists>padded. padded_data today m = Inr (padded, (totalDays today m + leadingPad m) div 7 + 1, startDate m)
     \<and> padded = replicate (nat (leadingPad m)) 0 @ daily_sequence today m
            @ replicate (nat (7 - (totalDays today m + leadingPad m) mod 7)) 0
     \<and> length padded = nat ((totalDays today m + leadingPad m) div 7 + 1) * 7
     \<and> generate_contribution_data today m =
         Inr (Contribution
               (transpose_T 7 (map (\<lambda>i. take 7 (drop (i * 7) padded))
                    [0..<nat ((totalDays today m + leadingPad m) div 7 + 1)]))
               (startDate m) today)"
proof -
  define padded where "padded = replicate (nat (leadingPad m)) 0 @ daily_sequence today m
            @ replicate (nat (7 - (totalDays today m + leadingPad m) mod 7)) 0"
  define nw where "nw = (totalDays today m + leadingPad m) div 7 + 1"
  have pd: "padded_data today m = Inr (padded, nw, startDate m)"
    unfolding padded_def nw_def by (rule padded_data_eq [OF assms])
  have n: "0 \<le> totalDays today m" using assms(2) by (simp add: totalDays_def)
  have w: "0 \<le> leadingPad m" by (simp add: leadingPad_def weekday_range)
  have len: "length padded = nat nw * 7"
    unfolding padded_def nw_def using length_padded [OF n w]
    by (simp add: daily_sequence_def)
  have "generate_contribution_data today m =
      Inr (Contribution (transpose_T 7 (map (\<lambda>i. take 7 (drop (i * 7) padded)) [0..<nat nw]))
            (startDate m) today)"
    using assms(1) by (simp add: generate_contribution_data_def pd reshape_ok [OF len])
  with pd len show ?thesis
    unfolding nw_def padded_def by blast
qed


subsection \<open>The sum of the cells\<close>















text \<open>
  C1. The claim says that the grid has the smallest multiple of 7 cells that holds
  \<open>leadingPad + totalDays\<close>, so fewer than 7 padding cells after the last day. The
  code computes \<^verbatim>\<open>num_weeks = (num_days + start_weekday) // 7 + 1\<close>, one week too
  many when \<open>leadingPad + totalDays\<close> is a multiple of 7. With one transfer on Monday
  2024-01-01 and \<open>today\<close> Sunday 2024-01-07, \<open>leadingPad + totalDays = 7\<close> and one
  column would do, but the grid has 2 columns (14 cells, 7 of them trailing padding).
\<close>

theorem grid_extra_week_on_exact_multiple:
  "generate_contribution_data (ymd2ord 2024 1 7) [(ymd2ord 2024 1 1, 1)]
     = Inr (Contribution [[1, 0], [0, 0], [0, 0], [0, 0], [0, 0], [0, 0], [0, 0]]
             (ymd2ord 2024 1 1) (ymd2ord 2024 1 7)) \<and>
   leadingPad [(ymd2ord 2024 1 1, 1)] + totalDays (ymd2ord 2024 1 7) [(ymd2ord 2024 1 1, 1)] = 7 \<and>
   int (num_columns [[1, 0], [0, 0], [0, 0], [0, 0], [0, 0], [0, 0], [0, 0]]) * 7 = 14"
  by code_simp

subsection \<open>Rows, columns and cells\<close>

lemma grid_cells:
  assumes "m \<noteq> []" and "startDate m \<le> today + 1"
  shows "\<exists>grid padded num_weeks.
           padded_data today m = Inr (padded, int num_weeks, startDate m) \<and>
           padded = replicate (nat (leadingPad m)) 0 @ daily_sequence today m
                      @ replicate (num_weeks * 7 - nat (leadingPad m + totalDays today m)) 0 \<and>
           generate_contribution_data today m = Inr (Contribution grid (startDate m) today) \<and>
           length grid = 7 \<and>
           (\<forall>r < 7. length (grid ! r) = num_weeks \<and>
              (\<forall>c < num_weeks. grid ! r ! c = padded ! (7 * c + r)))"
proof -
  define k where "k = totalDays today m + leadingPad m"
  define nw where "nw = nat (k div 7 + 1)"
  have n: "0 \<le> totalDays today m" using assms(2) by (simp add: totalDays_def)
  have w: "0 \<le> leadingPad m" by (simp add: leadingPad_def weekday_range)
  have k: "0 \<le> k" using n w by (simp add: k_def)
  then have nw: "int nw = k div 7 + 1"
    by (simp add: nw_def pos_imp_zdiv_nonneg_iff)
  have "int (nw * 7 - nat k) = int nw * 7 - k"
  proof -
    have "k \<le> int nw * 7" unfolding nw by presburger
    then have "nat k \<le> nw * 7" using k by linarith
    then show ?thesis using k by (simp add: of_nat_diff)
  qed
  also have "\<dots> = 7 - k mod 7" unfolding nw by presburger
  finally have trail: "nat (7 - k mod 7) = nw * 7 - nat k" by linarith
  from generate_contribution_data_eq [OF assms]
  obtain padded where
    pd: "padded_data today m = Inr (padded, k div 7 + 1, startDate m)"
    and padded: "padded = replicate (nat (leadingPad m)) 0 @ daily_sequence today m
               @ replicate (nat (7 - k mod 7)) 0"
    and len: "length padded = nw * 7"
    and gen: "generate_contribution_data today m =
       Inr (Contribution (transpose_T 7 (map (\<lambda>i. take 7 (drop (i * 7) padded)) [0..<nw]))
             (startDate m) today)"
    unfolding nw_def k_def by blast
  let ?grid = "transpose_T 7 (map (\<lambda>i. take 7 (drop (i * 7) padded)) [0..<nw])"
  have cells: "\<forall>r < 7. length (?grid ! r) = nw \<and> (\<forall>c < nw. ?grid ! r ! c = padded ! (7 * c + r))"
    using nth_transpose_reshape [OF len] by (simp add: length_row_transpose_T)
  have "padded_data today m = Inr (padded, int nw, startDate m)"
    by (simp only: pd nw)
  moreover have "padded = replicate (nat (leadingPad m)) 0 @ daily_sequence today m
                      @ replicate (nw * 7 - nat (leadingPad m + totalDays today m)) 0"
    by (simp only: padded trail) (simp add: k_def add.commute)
  moreover have "length ?grid = 7" by (rule length_transpose_T)
  ultimately show ?thesis using gen cells by blast
qed

subsection \<open>A start date after today\<close>

lemma padded_data_negative:
  assumes "m \<noteq> []" and "today + 1 < startDate m"
  shows "padded_data today m = Inl NegativeDimensions"
proof -
  have s: "min_list (sort (map fst m)) = startDate m"
    unfolding startDate_def by (rule start_date_Min [OF assms(1)])
  show ?thesis
    unfolding padded_data_def Let_def s using assms(2) by (simp add: np_zeros_def)
qed

lemma generate_contribution_data_negative:
  assumes "m \<noteq> []" and "today + 1 < startDate m"
  shows "generate_contribution_data today m = Inl NegativeDimensions"
  using assms(1) by (simp add: generate_contribution_data_def padded_data_negative [OF assms])

lemma analyze_wallet_activity_Nil:
  "analyze_wallet_activity fadd today [] = Inl NotEnoughValuesToUnpack"
  by (simp add: analyze_wallet_activity_def fetch_transactions_def calculate_streaks_def
      calculate_chain_and_amount_def generate_contribution_data_def)



text \<open>
  The number of columns on every input for which there is a grid: the trailing padding
  is \<open>7 - (leadingPad + totalDays) mod 7\<close> cells, between 1 and 7, and it is 7 exactly
  when \<open>leadingPad + totalDays\<close> is a multiple of 7.
\<close>

lemma grid_trailing_padding:
  assumes "m \<noteq> []" and "startDate m \<le> today + 1"
  shows "\<exists>grid. generate_contribution_data today m = Inr (Contribution grid (startDate m) today) \<and>
           int (num_columns grid) = (leadingPad m + totalDays today m) div 7 + 1 \<and>
           int (num_columns grid) * 7 - (leadingPad m + totalDays today m)
             = 7 - (leadingPad m + totalDays today m) mod 7"
proof -
  from grid_cells [OF assms] obtain grid padded num_weeks where
    pd: "padded_data today m = Inr (padded, int num_weeks, startDate m)"
    and gen: "generate_contribution_data today m = Inr (Contribution grid (startDate m) today)"
    and rows: "length grid = 7"
    and cols: "\<forall>r < 7. length (grid ! r) = num_weeks"
    by blast
  from padded_data_eq [OF assms] pd
  have nw: "int num_weeks = (totalDays today m + leadingPad m) div 7 + 1" by simp
  from rows obtain row rest where grid: "grid = row # rest" by (cases grid) auto
  have "length (grid ! 0) = num_weeks" using cols by simp
  then have "num_columns grid = num_weeks" by (simp add: grid num_columns_def)
  then have c: "int (num_columns grid) = (leadingPad m + totalDays today m) div 7 + 1"
    using nw by (simp add: add.commute)
  have "int (num_columns grid) * 7 - (leadingPad m + totalDays today m)
             = 7 - (leadingPad m + totalDays today m) mod 7"
    unfolding c by (rule trailing_pad)
  with gen c show ?thesis by blast
qed

section \<open>The activity map\<close>

lemma get0_update:
  "get0 (AList.update k v m) d = (if d = k then v else get0 m d)"
  by (simp add: get0_def update_conv')

lemma map_of_activity_loop:
  "map_of (activity_loop m txs) d =
     (if records_on d txs = 0 then map_of m d else Some (get0 m d + int (records_on d txs)))"
proof (induction txs arbitrary: m)
  case Nil
  show ?case by (simp add: records_on_def)
next
  case (Cons tx txs)
  let ?k = "utc_date (timestamp tx)"
  let ?m = "AList.update ?k (get0 m ?k + 1) m"
  have step: "map_of (activity_loop m (tx # txs)) d = map_of (activity_loop ?m txs) d"
    by (simp add: Let_def)
  show ?case
  proof (cases "d = ?k")
    case True
    have cnt: "records_on d (tx # txs) = Suc (records_on d txs)"
      using True by (simp add: records_on_def)
    show ?thesis
      unfolding step Cons.IH cnt using True
      by (simp add: get0_update update_conv')
  next
    case False
    have cnt: "records_on d (tx # txs) = records_on d txs"
      using False by (auto simp: records_on_def)
    show ?thesis
      unfolding step Cons.IH cnt using False
      by (simp add: get0_update update_conv')
  qed
qed



lemma activity_loop_nonempty: "txs \<noteq> [] \<Longrightarrow> activity_loop [] txs \<noteq> []"
proof -
  assume "txs \<noteq> []"
  then obtain tx rest where txs: "txs = tx # rest" by (cases txs) auto
  have "records_on (utc_date (timestamp tx)) txs \<noteq> 0"
    by (simp add: txs records_on_def)
  then have "map_of (activity_loop [] txs) (utc_date (timestamp tx)) \<noteq> None"
    by (simp add: map_of_activity_loop)
  then show ?thesis by auto
qed

section \<open>The return shape and the orchestrator\<close>

lemma analyze_wallet_activity_unpack:
  assumes "txs \<noteq> []"
  shows "analyze_wallet_activity fadd today txs \<noteq> Inl NotEnoughValuesToUnpack"
proof -
  define m where "m = activity_loop [] txs"
  have ne: "m \<noteq> []" unfolding m_def by (rule activity_loop_nonempty [OF assms])
  consider "startDate m \<le> today + 1" | "today + 1 < startDate m" by linarith
  then show ?thesis
  proof cases
    case 1
    from generate_contribution_data_eq [OF ne 1]
    obtain grid where "generate_contribution_data today m = Inr (Contribution grid (startDate m) today)"
      by blast
    then show ?thesis
      by (simp add: analyze_wallet_activity_def fetch_transactions_def m_def [symmetric] split_beta)
  next
    case 2
    have "generate_contribution_data today m = Inl NegativeDimensions"
      by (rule generate_contribution_data_negative [OF ne 2])
    then show ?thesis
      by (simp add: analyze_wallet_activity_def fetch_transactions_def m_def [symmetric] split_beta)
  qed
qed

text \<open>
  C10. \<^verbatim>\<open>generate_contribution_data\<close> returns the lone empty array for the empty dict
  and the 3-tuple for a non-empty one (it raises in \<^verbatim>\<open>np.zeros\<close> when the earliest key
  is more than one day after \<open>today\<close>, and never returns the lone array then either).
  \<^verbatim>\<open>analyze_wallet_activity\<close> unpacks three values, so on an empty list of transfers
  it fails with the \<^verbatim>\<open>ValueError\<close> of the unpacking, and only then.
\<close>

theorem inconsistent_return_shape:
  "generate_contribution_data today [] = Inr EmptyArray \<and>
   (m \<noteq> [] \<and> startDate m \<le> today + 1 \<longrightarrow>
      (\<exists>grid. generate_contribution_data today m = Inr (Contribution grid (startDate m) today))) \<and>
   (m \<noteq> [] \<and> today + 1 < startDate m \<longrightarrow>
      generate_contribution_data today m = Inl NegativeDimensions) \<and>
   analyze_wallet_activity fadd today [] = Inl NotEnoughValuesToUnpack \<and>
   (txs \<noteq> [] \<longrightarrow> analyze_wallet_activity fadd today txs \<noteq> Inl NotEnoughValuesToUnpack)"
  using generate_contribution_data_eq [of m today] generate_contribution_data_negative [of m today]
    analyze_wallet_activity_unpack [of txs fadd today]
  by (auto simp: generate_contribution_data_Nil analyze_wallet_activity_Nil)

theorem inconsistent_return_shape_witness:
  "[(ymd2ord 2024 1 3, 1 :: int)] \<noteq> [] \<and>
   startDate [(ymd2ord 2024 1 3, 1)] \<le> ymd2ord 2024 1 10 + 1 \<and>
   (\<exists>grid. generate_contribution_data (ymd2ord 2024 1 10) [(ymd2ord 2024 1 3, 1)]
      = Inr (Contribution grid (startDate [(ymd2ord 2024 1 3, 1)]) (ymd2ord 2024 1 10))) \<and>
   generate_contribution_data (ymd2ord 2024 1 10) [] = Inr EmptyArray \<and>
   analyze_wallet_activity (+) (ymd2ord 2024 1 10) [] = Inl NotEnoughValuesToUnpack \<and>
   [\<lparr>timestamp = 1704067200, chainId = 1, amountUSD = 10\<rparr>] \<noteq> [] \<and>
   analyze_wallet_activity (+) (ymd2ord 2024 1 10) [\<lparr>timestamp = 1704067200, chainId = 1, amountUSD = 10\<rparr>]
     \<noteq> Inl NotEnoughValuesToUnpack \<and>
   [(ymd2ord 2024 1 10, 1 :: int)] \<noteq> [] \<and>
   ymd2ord 2024 1 3 + 1 < startDate [(ymd2ord 2024 1 10, 1)] \<and>
   generate_contribution_data (ymd2ord 2024 1 3) [(ymd2ord 2024 1 10, 1)] = Inl NegativeDimensions"
proof -
  have s: "startDate [(ymd2ord 2024 1 3, 1)] \<le> ymd2ord 2024 1 10 + 1"
    by code_simp
  have t: "ymd2ord 2024 1 3 + 1 < startDate [(ymd2ord 2024 1 10, 1)]"
    by code_simp
  show ?thesis
    using s t
      inconsistent_return_shape [of "ymd2ord 2024 1 10" "[(ymd2ord 2024 1 3, 1)]" "(+)"
        "[\<lparr>timestamp = 1704067200, chainId = 1, amountUSD = 10\<rparr>]"]
      inconsistent_return_shape [of "ymd2ord 2024 1 3" "[(ymd2ord 2024 1 10, 1)]" "(+)" "[]"]
    by simp
qed

section \<open>Chains and amount\<close>

text \<open>
  The number of distinct chains is the cardinality of the set of chain ids. The total is
  a sum of floats; with an addition that does not round (as on the amounts 10.5, 5.25 and
  100, which are binary fractions) it is the exact sum.
\<close>

lemma distinct_chain_count:
  "fst (calculate_chain_and_amount fadd txs) = card (chainId ` set txs)"
  by (simp add: calculate_chain_and_amount_def)

lemma total_with_exact_addition:
  "snd (calculate_chain_and_amount (+) txs) = sum_list (map amountUSD txs)"
proof -
  have "foldl (+) a xs = a + sum_list xs" for a :: real and xs
    by (induction xs arbitrary: a) (simp_all add: add.assoc)
  then show ?thesis by (simp add: calculate_chain_and_amount_def)
qed

lemma three_transfers_two_chains:
  "calculate_chain_and_amount (+)
     [\<lparr>timestamp = 1704067200, chainId = 1, amountUSD = 10.5\<rparr>,
      \<lparr>timestamp = 1704153600, chainId = 1, amountUSD = 5.25\<rparr>,
      \<lparr>timestamp = 1704844800, chainId = 2, amountUSD = 100\<rparr>] = (2, 115.75)"
  by (simp add: calculate_chain_and_amount_def)

end
